theory Spec2Isabelle
  imports Main "HOL-Library.Sublist"
begin

section \<open>Batch URL processor: data model\<close>

text \<open>
  A shallow embedding of \<^verbatim>\<open>chromeExtensionRealtor/batch_processor.py\<close>.
  Python integers are \<^typ>\<open>int\<close>, strings are \<^typ>\<open>string\<close>. Durations
  (\<^verbatim>\<open>tab_delay\<close>, \<^verbatim>\<open>retry_delay\<close>, \<^verbatim>\<open>status_update_interval\<close>) are floats
  that only feed \<^verbatim>\<open>asyncio.sleep\<close>; time is not modelled, so they are left out of the
  configuration record. A sleep is a step of the model's clock.
\<close>

record config =
  csv_file :: string
  backend_url :: string
  progress_file :: string
  batch_size :: int
  max_workers :: int
  extraction_timeout :: int
  page_load_timeout :: int
  max_retries :: int
  progress_save_interval :: int

text \<open>\<^verbatim>\<open>ProcessingStats\<close>; \<^verbatim>\<open>errors\<close> holds the dicts \<^verbatim>\<open>{"url": u, "error": m}\<close> as pairs.\<close>

record stats =
  total :: int
  processed :: int
  successful :: int
  failed :: int
  skipped :: int
  start_time :: "nat option"
  errors :: "(string \<times> string) list"

text \<open>The dict handed to \<^verbatim>\<open>json.dump\<close> by \<^verbatim>\<open>_save_progress\<close>.\<close>

record progress =
  last_update :: nat
  progress_stats :: stats
  progress_config :: config

datatype py_error = AttributeError | ValueError | ZeroDivisionError

text \<open>
  The dicts returned by \<^verbatim>\<open>process_single_url\<close>:
  \<^verbatim>\<open>{"url", "success": True, "skipped": True}\<close>,
  \<^verbatim>\<open>{"url", "success": True, "extracted": True}\<close> and
  \<^verbatim>\<open>{"url", "success": False, "error": msg}\<close>.
\<close>

datatype item_result =
  Success_skipped string
  | Success_extracted string
  | Failure string string

text \<open>
  What the backend answers to \<^verbatim>\<open>POST /api/check-duplicate\<close>: the request may raise
  (connection error, timeout), \<^verbatim>\<open>raise_for_status\<close> may raise, the body may fail to
  parse as a JSON object, or the body is an object whose \<^verbatim>\<open>isDuplicate\<close> member, when
  present, is a boolean.
\<close>

datatype dup_reply = Request_failed | Bad_status | Bad_body | Body "bool option"

text \<open>A tab of the DevTools endpoint, reduced to its \<^verbatim>\<open>id\<close> member when it has one.\<close>

type_synonym tab = "string option"

text \<open>
  The calls the processor makes to the outside, in the order made, with what they
  returned; checkpoints carry the dict that was written.
\<close>

datatype event =
  Check string bool
  | Devtools string bool
  | Tab_opener string bool
  | Launch nat
  | Terminate nat
  | Kill nat
  | Checkpoint progress

text \<open>
  The environment answers every call from the clock value at which the call is made, so
  any sequence of answers can be described. \<^verbatim>\<open>signal\<close> says at which clock values
  SIGINT or SIGTERM arrives. \<^verbatim>\<open>as_completed\<close> is the behaviour of
  \<^verbatim>\<open>concurrent.futures.as_completed\<close> on the futures of a batch, given the results the
  futures hold in submission order. \<^verbatim>\<open>dumps\<close> is the text \<^verbatim>\<open>json.dump\<close> produces.
\<close>

record env =
  duplicate_reply :: "nat \<Rightarrow> string \<Rightarrow> dup_reply"
  list_tabs :: "nat \<Rightarrow> tab list option"
  new_tab :: "nat \<Rightarrow> string \<Rightarrow> tab option"
  close_tab :: "nat \<Rightarrow> string \<Rightarrow> bool"
  tab_opener_present :: "nat \<Rightarrow> bool"
  tab_opener_run :: "nat \<Rightarrow> string \<Rightarrow> int option"
  signal :: "nat \<Rightarrow> bool"
  as_completed :: "item_result list \<Rightarrow> py_error + item_result list"
  dumps :: "progress \<Rightarrow> string"
  writable :: "nat \<Rightarrow> string \<Rightarrow> bool"
  popen :: "nat \<Rightarrow> nat option"
  debugging_port_up :: "nat \<Rightarrow> bool"
  exited :: "nat \<Rightarrow> bool"
  poll_budget :: nat

text \<open>The \<^verbatim>\<open>BatchProcessor\<close> object, with the clock, the call trace and the files.\<close>

record processor =
  stats :: stats
  chrome_process :: "nat option"
  should_stop :: bool
  clock :: nat
  trace :: "event list"
  files :: "string \<rightharpoonup> string"

definition ProcessingStats :: stats where
  "ProcessingStats = \<lparr>total = 0, processed = 0, successful = 0, failed = 0, skipped = 0,
     start_time = None, errors = []\<rparr>"

definition BatchProcessor :: processor where
  "BatchProcessor = \<lparr>stats = ProcessingStats, chrome_process = None, should_stop = False,
     clock = 0, trace = [], files = Map.empty\<rparr>"

section \<open>Shutdown flag and clock\<close>

definition signal_handler :: "processor \<Rightarrow> processor" where
  "signal_handler s = s\<lparr>should_stop := True\<rparr>"

text \<open>
  One step of time: a signal that arrives at the current clock value runs the handler,
  then the clock advances. Every outside call and every sleep takes one step.
\<close>

definition tick :: "env \<Rightarrow> processor \<Rightarrow> processor" where
  "tick e s =
     (let s1 = (if signal e (clock s) then signal_handler s else s)
      in s1\<lparr>clock := clock s1 + 1\<rparr>)"

definition record_event :: "event \<Rightarrow> processor \<Rightarrow> processor" where
  "record_event ev s = s\<lparr>trace := trace s @ [ev]\<rparr>"

section \<open>Item processor\<close>

text \<open>
  \<^verbatim>\<open>check_url_exists\<close>: every exception is caught and gives \<^verbatim>\<open>False\<close>; otherwise the
  result is \<^verbatim>\<open>data.get("isDuplicate", False)\<close>.
\<close>

definition is_duplicate :: "dup_reply \<Rightarrow> bool" where
  "is_duplicate r = (case r of Body (Some b) \<Rightarrow> b | Body None \<Rightarrow> False
     | Request_failed \<Rightarrow> False | Bad_status \<Rightarrow> False | Bad_body \<Rightarrow> False)"

definition check_url_exists :: "env \<Rightarrow> string \<Rightarrow> processor \<Rightarrow> bool \<times> processor" where
  "check_url_exists e url s =
     (let r = is_duplicate (duplicate_reply e (clock s) url)
      in (r, tick e (record_event (Check url r) s)))"

text \<open>
  \<^verbatim>\<open>process_url_via_chrome_devtools\<close>: list the tabs; with no tab open a new one at the
  URL, otherwise take the first; sleep \<^verbatim>\<open>extraction_timeout\<close>; close the tab when it has
  an id. Any exception gives \<^verbatim>\<open>False\<close>.
\<close>

definition devtools_close :: "env \<Rightarrow> tab \<Rightarrow> processor \<Rightarrow> bool \<times> processor" where
  "devtools_close e t s =
     (case t of None \<Rightarrow> (True, s)
      | Some i \<Rightarrow> (close_tab e (clock s) i, tick e s))"

definition devtools_steps :: "env \<Rightarrow> string \<Rightarrow> processor \<Rightarrow> bool \<times> processor" where
  "devtools_steps e url s =
     (case list_tabs e (clock s) of
        None \<Rightarrow> (False, tick e s)
      | Some [] \<Rightarrow>
          (let s1 = tick e s in
           case new_tab e (clock s1) url of
             None \<Rightarrow> (False, tick e s1)
           | Some t \<Rightarrow> devtools_close e t (tick e (tick e s1)))
      | Some (t # ts) \<Rightarrow> devtools_close e t (tick e (tick e s)))"

definition process_url_via_chrome_devtools ::
    "env \<Rightarrow> string \<Rightarrow> processor \<Rightarrow> bool \<times> processor" where
  "process_url_via_chrome_devtools e url s =
     (let (ok, s1) = devtools_steps e url s
      in (ok, record_event (Devtools url ok) s1))"

text \<open>
  \<^verbatim>\<open>process_url_via_tab_opener\<close>: run the helper script on a one-line CSV;
  \<^verbatim>\<open>None\<close> from the environment is any exception (the file cannot be written, the
  script cannot be started, the timeout expires), otherwise the return code.
\<close>

definition process_url_via_tab_opener ::
    "env \<Rightarrow> string \<Rightarrow> processor \<Rightarrow> bool \<times> processor" where
  "process_url_via_tab_opener e url s =
     (let ok = (case tab_opener_run e (clock s) url of None \<Rightarrow> False | Some rc \<Rightarrow> rc = 0)
      in (ok, record_event (Tab_opener url ok) (tick e s)))"

text \<open>Python's \<^verbatim>\<open>str\<close> of an integer, for the f-string of the error message.\<close>

definition digit_char :: "nat \<Rightarrow> char" where
  "digit_char d = ''0123456789'' ! d"

fun str_nat :: "nat \<Rightarrow> string" where
  "str_nat n = (if n < 10 then [digit_char n] else str_nat (n div 10) @ [digit_char (n mod 10)])"

declare str_nat.simps [simp del]

definition str_int :: "int \<Rightarrow> string" where
  "str_int i = (if i < 0 then CHR ''-'' # str_nat (nat (- i)) else str_nat (nat i))"

text \<open>
  The body of one attempt of \<^verbatim>\<open>process_single_url\<close>, from the DevTools trigger to the
  fallback. The result is \<^verbatim>\<open>True\<close> where the source counts a success and returns.
  Everything called inside the \<^verbatim>\<open>try\<close> catches its own exceptions, so the
  \<^verbatim>\<open>except\<close> branch of the attempt has no case here.
\<close>

definition count_successful :: "processor \<Rightarrow> processor" where
  "count_successful s = s\<lparr>stats := (stats s)\<lparr>successful := successful (stats s) + 1\<rparr>\<rparr>"

definition count_skipped :: "processor \<Rightarrow> processor" where
  "count_skipped s = s\<lparr>stats := (stats s)\<lparr>skipped := skipped (stats s) + 1\<rparr>\<rparr>"

definition count_failed :: "string \<Rightarrow> string \<Rightarrow> processor \<Rightarrow> processor" where
  "count_failed url error_msg s =
     s\<lparr>stats := (stats s)\<lparr>failed := failed (stats s) + 1,
                             errors := errors (stats s) @ [(url, error_msg)]\<rparr>\<rparr>"

definition fallback :: "env \<Rightarrow> string \<Rightarrow> processor \<Rightarrow> bool \<times> processor" where
  "fallback e url s =
     (if tab_opener_present e (clock s) then
        (let (success, s1) = process_url_via_tab_opener e url (tick e s) in
         if success then
           (let (dup, s2) = check_url_exists e url s1 in
            if dup then (True, count_successful s2) else (False, s2))
         else (False, s1))
      else (False, tick e s))"

definition attempt_body :: "env \<Rightarrow> string \<Rightarrow> processor \<Rightarrow> bool \<times> processor" where
  "attempt_body e url s =
     (let (success, s1) = process_url_via_chrome_devtools e url s in
      if success then
        (let (dup, s2) = check_url_exists e url (tick e s1) in
         if dup then (True, count_successful s2) else fallback e url s2)
      else fallback e url s1)"

text \<open>
  The loop \<^verbatim>\<open>for attempt in range(1, max_retries + 1)\<close>, over the list of the attempt
  numbers still to run. \<^verbatim>\<open>None\<close> is the loop running out.
\<close>

fun attempts ::
    "env \<Rightarrow> config \<Rightarrow> string \<Rightarrow> int list \<Rightarrow> processor \<Rightarrow> item_result option \<times> processor" where
  "attempts e cfg url [] s = (None, s)"
| "attempts e cfg url (attempt # rest) s =
     (if should_stop s then (Some (Failure url ''Stopped by user''), s)
      else
        (let (done, s1) = attempt_body e url s in
         if done then (Some (Success_extracted url), s1)
         else attempts e cfg url rest
                (if attempt < max_retries cfg then tick e s1 else s1)))"

definition process_single_url ::
    "env \<Rightarrow> config \<Rightarrow> string \<Rightarrow> int \<Rightarrow> int \<Rightarrow> processor \<Rightarrow> item_result \<times> processor" where
  "process_single_url e cfg url index tot s =
     (let (dup, s1) = check_url_exists e url s in
      if dup then (Success_skipped url, count_skipped s1)
      else
        (case attempts e cfg url [1..max_retries cfg] s1 of
           (Some r, s2) \<Rightarrow> (r, s2)
         | (None, s2) \<Rightarrow>
             (let error_msg = ''Failed after '' @ str_int (max_retries cfg) @ '' attempts''
              in (Failure url error_msg, count_failed url error_msg s2))))"

section \<open>Progress ledger\<close>

text \<open>
  \<^verbatim>\<open>_save_progress\<close> opens \<^verbatim>\<open>progress_file\<close> itself with mode \<^verbatim>\<open>'w'\<close>, which
  truncates it, and \<^verbatim>\<open>json.dump\<close> then writes the text into it piece by piece. The
  file operations are listed one character at a time, so that an interruption can fall
  anywhere in the write.
\<close>

datatype file_op = Open_truncate string | Write_text string string | Close_file string

fun apply_op :: "file_op \<Rightarrow> (string \<rightharpoonup> string) \<Rightarrow> (string \<rightharpoonup> string)" where
  "apply_op (Open_truncate p) fs = fs(p \<mapsto> [])"
| "apply_op (Write_text p txt) fs = fs(p \<mapsto> (case fs p of None \<Rightarrow> txt | Some old \<Rightarrow> old @ txt))"
| "apply_op (Close_file p) fs = fs"

fun run_ops :: "file_op list \<Rightarrow> (string \<rightharpoonup> string) \<Rightarrow> (string \<rightharpoonup> string)" where
  "run_ops [] fs = fs"
| "run_ops (x # xs) fs = run_ops xs (apply_op x fs)"

definition snapshot :: "config \<Rightarrow> processor \<Rightarrow> progress" where
  "snapshot cfg s = \<lparr>last_update = clock s, progress_stats = stats s, progress_config = cfg\<rparr>"

definition save_ops :: "env \<Rightarrow> config \<Rightarrow> processor \<Rightarrow> file_op list" where
  "save_ops e cfg s =
     Open_truncate (progress_file cfg) #
     map (\<lambda>c. Write_text (progress_file cfg) [c]) (dumps e (snapshot cfg s)) @
     [Close_file (progress_file cfg)]"

text \<open>
  \<^verbatim>\<open>_save_progress\<close>: an exception (here: the file cannot be opened for writing) is
  caught and logged, and nothing is written.
\<close>

definition save_progress :: "env \<Rightarrow> config \<Rightarrow> processor \<Rightarrow> processor" where
  "save_progress e cfg s =
     (if writable e (clock s) (progress_file cfg) then
        tick e (record_event (Checkpoint (snapshot cfg s))
          (s\<lparr>files := run_ops (save_ops e cfg s) (files s)\<rparr>))
      else tick e s)"


section \<open>Batch scheduler\<close>

text \<open>
  The loop of \<^verbatim>\<open>process_batch\<close> that creates the tasks: one per URL, until the flag is
  seen, with a \<^verbatim>\<open>tab_delay\<close> sleep after each but the last. A task is the URL with its
  \<^verbatim>\<open>global_index\<close>.
\<close>

fun launch ::
    "env \<Rightarrow> string list \<Rightarrow> nat \<Rightarrow> nat \<Rightarrow> processor \<Rightarrow> (string \<times> int) list \<times> processor" where
  "launch e [] i n s = ([], s)"
| "launch e (url # urls) i n s =
     (if should_stop s then ([], s)
      else
        (let global_index = processed (stats s) + int i + 1;
             s1 = (if int i < int n - 1 then tick e s else s);
             (tasks, s2) = launch e urls (i + 1) n s1
         in ((url, global_index) # tasks, s2)))"

text \<open>
  The pool's scheduling is not modelled: the created tasks run one after another, in
  submission order, once the creating loop has finished.
\<close>

fun run_tasks ::
    "env \<Rightarrow> config \<Rightarrow> (string \<times> int) list \<Rightarrow> processor \<Rightarrow> item_result list \<times> processor" where
  "run_tasks e cfg [] s = ([], s)"
| "run_tasks e cfg ((u, idx) # ts) s =
     (let (r, s1) = process_single_url e cfg u idx (total (stats s)) s;
          (rs, s2) = run_tasks e cfg ts s1
      in (r # rs, s2))"

text \<open>
  \<^verbatim>\<open>process_batch\<close>. Logging and setting up the pool take one step of the clock.
  \<^verbatim>\<open>ThreadPoolExecutor\<close> raises \<^verbatim>\<open>ValueError\<close> for \<^verbatim>\<open>max_workers <= 0\<close>. Leaving the
  \<^verbatim>\<open>with\<close> block waits for the submitted tasks, also when \<^verbatim>\<open>as_completed\<close> raises, so
  the tasks' effects are in the state either way. The results are returned as
  \<^verbatim>\<open>as_completed\<close> yields them.
\<close>

definition process_batch ::
    "env \<Rightarrow> config \<Rightarrow> string list \<Rightarrow> int \<Rightarrow> processor
      \<Rightarrow> (py_error + item_result list) \<times> processor" where
  "process_batch e cfg urls batch_index s =
     (let s0 = tick e s in
      if max_workers cfg \<le> 0 then (Inl ValueError, s0)
      else
        (let (tasks, s1) = launch e urls 0 (length urls) s0;
             (held, s2) = run_tasks e cfg tasks s1
         in (as_completed e held, s2)))"

text \<open>
  What \<^verbatim>\<open>concurrent.futures.as_completed\<close> does with the futures that
  \<^verbatim>\<open>loop.run_in_executor\<close> returns: they are asyncio futures, and \<^verbatim>\<open>as_completed\<close>
  acquires the \<^verbatim>\<open>_condition\<close> of every future it is given, an attribute they do not have.
  With no future there is nothing to acquire and nothing is yielded.
\<close>

definition as_completed_asyncio :: "item_result list \<Rightarrow> py_error + item_result list" where
  "as_completed_asyncio held = (if held = [] then Inr [] else Inl AttributeError)"

definition count_processed :: "nat \<Rightarrow> processor \<Rightarrow> processor" where
  "count_processed n s = s\<lparr>stats := (stats s)\<lparr>processed := processed (stats s) + int n\<rparr>\<rparr>"

text \<open>
  The loop \<^verbatim>\<open>for i in range(0, len(urls), batch_size)\<close> of \<^verbatim>\<open>process_all_urls\<close>, from
  index \<open>i\<close> on. A negative step gives an empty range; step zero is refused before the
  loop, in \<open>process_all_urls\<close>. \<^verbatim>\<open>_print_progress\<close> only logs.
\<close>

function batch_loop ::
    "env \<Rightarrow> config \<Rightarrow> string list \<Rightarrow> nat \<Rightarrow> processor \<Rightarrow> (py_error + unit) \<times> processor" where
  "batch_loop e cfg urls i s =
     (if batch_size cfg \<le> 0 \<or> length urls \<le> i then (Inr (), s)
      else if should_stop s then (Inr (), s)
      else
        (let batch = take (nat (batch_size cfg)) (drop i urls);
             batch_index = int i div batch_size cfg + 1
         in case process_batch e cfg batch batch_index s of
              (Inl err, s1) \<Rightarrow> (Inl err, s1)
            | (Inr results, s1) \<Rightarrow>
                (let s2 = count_processed (length batch) s1 in
                 if progress_save_interval cfg = 0 then (Inl ZeroDivisionError, s2)
                 else
                   (let s3 = (if processed (stats s2) mod progress_save_interval cfg = 0
                              then save_progress e cfg s2 else s2);
                        s4 = (if int i + batch_size cfg < int (length urls)
                              then tick e s3 else s3)
                    in batch_loop e cfg urls (i + nat (batch_size cfg)) s4))))"
  by pat_completeness auto
termination
  by (relation "measure (\<lambda>(e, cfg, urls, i, s). length urls - i)") auto

declare batch_loop.simps [simp del]

definition process_all_urls ::
    "env \<Rightarrow> config \<Rightarrow> string list \<Rightarrow> processor \<Rightarrow> (py_error + unit) \<times> processor" where
  "process_all_urls e cfg urls s =
     (let s0 = s\<lparr>stats := (stats s)\<lparr>total := int (length urls), start_time := Some (clock s)\<rparr>\<rparr>
      in if batch_size cfg = 0 then (Inl ValueError, s0)
         else
           (case batch_loop e cfg urls 0 s0 of
              (Inl err, s1) \<Rightarrow> (Inl err, s1)
            | (Inr u, s1) \<Rightarrow> (Inr (), save_progress e cfg s1)))"

section \<open>Process supervisor\<close>

text \<open>
  \<^verbatim>\<open>start_chrome\<close>: \<^verbatim>\<open>Popen\<close> may raise, which leaves \<^verbatim>\<open>chrome_process\<close> as it
  was; once it has returned, the handle is stored before the debugging port is probed,
  and stays stored when the probe fails.
\<close>

definition start_chrome :: "env \<Rightarrow> processor \<Rightarrow> bool \<times> processor" where
  "start_chrome e s =
     (case popen e (clock s) of
        None \<Rightarrow> (False, tick e s)
      | Some pid \<Rightarrow>
          (let s1 = tick e (record_event (Launch pid) (s\<lparr>chrome_process := Some pid\<rparr>));
               s2 = tick e s1
           in (debugging_port_up e (clock s2), tick e s2)))"

text \<open>
  \<^verbatim>\<open>_wait_for_process_termination\<close> under \<^verbatim>\<open>asyncio.wait_for(..., timeout=10)\<close>: poll,
  sleep 0.1, poll again; the first argument is the number of polls that fit into the
  timeout. \<^verbatim>\<open>False\<close> is the timeout.
\<close>

fun wait_for_process_termination :: "env \<Rightarrow> nat \<Rightarrow> processor \<Rightarrow> bool \<times> processor" where
  "wait_for_process_termination e 0 s = (False, s)"
| "wait_for_process_termination e (Suc n) s =
     (if exited e (clock s) then (True, tick e s)
      else wait_for_process_termination e n (tick e (tick e s)))"

definition stop_chrome :: "env \<Rightarrow> processor \<Rightarrow> processor" where
  "stop_chrome e s =
     (case chrome_process s of
        None \<Rightarrow> s
      | Some pid \<Rightarrow>
          (let s1 = tick e (record_event (Terminate pid) s);
               (gone, s2) = wait_for_process_termination e (poll_budget e) s1;
               s3 = (if gone then s2 else tick e (record_event (Kill pid) s2))
           in s3\<lparr>chrome_process := None\<rparr>))"

section \<open>Identifier source\<close>

text \<open>
  Strings are modelled over ASCII. \<^verbatim>\<open>str.strip\<close> removes the characters for which
  \<^verbatim>\<open>str.isspace\<close> holds: tab, line feed, vertical tab, form feed, carriage return, the
  separators 0x1C to 0x1F, and space.
\<close>

definition isspace :: "char \<Rightarrow> bool" where
  "isspace c = (let n = of_char c :: nat in (9 \<le> n \<and> n \<le> 13) \<or> (28 \<le> n \<and> n \<le> 32))"

definition strip :: "string \<Rightarrow> string" where
  "strip s = rev (dropWhile isspace (rev (dropWhile isspace s)))"












section \<open>Notions used in the statements\<close>

text \<open>No signal arrives from the current clock value on.\<close>

definition quiet :: "env \<Rightarrow> processor \<Rightarrow> bool" where
  "quiet e s = (\<forall>t\<ge>clock s. \<not> signal e t)"

text \<open>From the current clock value on, no duplicate check for the URL is positive.\<close>

definition undetected :: "env \<Rightarrow> string \<Rightarrow> processor \<Rightarrow> bool" where
  "undetected e url s = (\<forall>t\<ge>clock s. \<not> is_duplicate (duplicate_reply e t url))"

text \<open>How often the DevTools trigger was called for a URL, and the checkpoints written.\<close>

fun devtools_calls :: "string \<Rightarrow> event list \<Rightarrow> nat" where
  "devtools_calls url [] = 0"
| "devtools_calls url (Devtools u ok # evs) = (if u = url then 1 else 0) + devtools_calls url evs"
| "devtools_calls url (ev # evs) = devtools_calls url evs"

fun checkpoints :: "event list \<Rightarrow> progress list" where
  "checkpoints [] = []"
| "checkpoints (Checkpoint p # evs) = p # checkpoints evs"
| "checkpoints (ev # evs) = checkpoints evs"


text \<open>
  The state \<open>s'\<close> comes from \<open>s\<close> by outside calls and sleeps alone: counters, process
  handle and files are the same, the trace has grown by calls that are not checkpoints,
  and the flag can only have been raised, by a signal.
\<close>

definition passes :: "env \<Rightarrow> processor \<Rightarrow> processor \<Rightarrow> bool" where
  "passes e s s' \<longleftrightarrow>
     stats s' = stats s \<and> chrome_process s' = chrome_process s \<and> files s' = files s \<and>
     clock s \<le> clock s' \<and> prefix (trace s) (trace s') \<and>
     checkpoints (trace s') = checkpoints (trace s) \<and>
     (should_stop s \<longrightarrow> should_stop s') \<and>
     (quiet e s \<longrightarrow> should_stop s' = should_stop s)"

text \<open>The trace ends with a trigger that reported success and a positive check after it.\<close>

definition confirmed_by_check :: "string \<Rightarrow> event list \<Rightarrow> bool" where
  "confirmed_by_check url tr \<longleftrightarrow>
     (\<exists>pre trig. tr = pre @ [trig, Check url True] \<and>
        (trig = Devtools url True \<or> trig = Tab_opener url True))"

text \<open>
  What one attempt amounts to: it is counted as a success only on a positive check
  after a trigger, and calls the DevTools trigger \<open>k\<close> times.
\<close>

definition attempt_outcome ::
    "env \<Rightarrow> string \<Rightarrow> nat \<Rightarrow> processor \<Rightarrow> bool \<Rightarrow> processor \<Rightarrow> bool" where
  "attempt_outcome e url k s fin s' \<longleftrightarrow>
     (\<exists>s2. passes e s s2 \<and> s' = (if fin then count_successful s2 else s2) \<and>
        devtools_calls url (trace s2) = devtools_calls url (trace s) + k \<and>
        (fin \<longrightarrow> confirmed_by_check url (trace s2) \<and>
           (\<exists>t\<ge>clock s. is_duplicate (duplicate_reply e t url))))"


section \<open>Example configurations and environments\<close>

text \<open>The defaults of \<^verbatim>\<open>Config\<close>.\<close>

definition default_config :: config where
  "default_config = \<lparr>csv_file = ''90028 realtors LINKS ONLY (copy).csv'',
     backend_url = ''http://localhost:5001'', progress_file = ''batch_progress.json'',
     batch_size = 5, max_workers = 3, extraction_timeout = 30, page_load_timeout = 15,
     max_retries = 3, progress_save_interval = 10\<rparr>"

definition no_retry_config :: config where
  "no_retry_config = default_config\<lparr>max_retries := 0\<rparr>"

text \<open>
  A backend that knows no URL, a browser with no tab open that opens and closes tabs,
  no helper script, no signal, a writable progress file, a browser that starts and
  exits when asked.
\<close>

definition plain_env :: env where
  "plain_env = \<lparr>duplicate_reply = (\<lambda>t url. Body (Some False)), list_tabs = (\<lambda>t. Some []),
     new_tab = (\<lambda>t url. Some (Some ''1'')), close_tab = (\<lambda>t i. True),
     tab_opener_present = (\<lambda>t. False), tab_opener_run = (\<lambda>t url. None),
     signal = (\<lambda>t. False), as_completed = as_completed_asyncio,
     dumps = (\<lambda>p. ''snapshot '' @ str_int (processed (progress_stats p))),
     writable = (\<lambda>t p. True), popen = (\<lambda>t. Some 4242),
     debugging_port_up = (\<lambda>t. True), exited = (\<lambda>t. True), poll_budget = 100\<rparr>"

text \<open>The backend has every URL already.\<close>

definition known_env :: env where
  "known_env = plain_env\<lparr>duplicate_reply := (\<lambda>t url. Body (Some True))\<rparr>"


text \<open>The backend cannot be reached.\<close>

definition unreachable_env :: env where
  "unreachable_env = plain_env\<lparr>duplicate_reply := (\<lambda>t url. Request_failed)\<rparr>"




text \<open>The browser starts but its debugging port does not answer.\<close>

definition no_port_env :: env where
  "no_port_env = plain_env\<lparr>debugging_port_up := (\<lambda>t. False)\<rparr>"





section \<open>Basic facts\<close>

lemma checkpoints_append [simp]: "checkpoints (xs @ ys) = checkpoints xs @ checkpoints ys"
  by (induction xs rule: checkpoints.induct) auto

lemma devtools_calls_append [simp]:
  "devtools_calls url (xs @ ys) = devtools_calls url xs + devtools_calls url ys"
  by (induction url xs rule: devtools_calls.induct) auto

lemma tick_fields [simp]:
  "stats (tick e s) = stats s" "trace (tick e s) = trace s"
  "clock (tick e s) = Suc (clock s)" "chrome_process (tick e s) = chrome_process s"
  "files (tick e s) = files s"
  "should_stop (tick e s) = (should_stop s \<or> signal e (clock s))"
  by (auto simp: tick_def signal_handler_def Let_def)

lemma record_event_fields [simp]:
  "stats (record_event ev s) = stats s" "trace (record_event ev s) = trace s @ [ev]"
  "clock (record_event ev s) = clock s" "chrome_process (record_event ev s) = chrome_process s"
  "files (record_event ev s) = files s" "should_stop (record_event ev s) = should_stop s"
  by (simp_all add: record_event_def)

lemma count_successful_fields [simp]:
  "trace (count_successful s) = trace s" "clock (count_successful s) = clock s"
  "should_stop (count_successful s) = should_stop s"
  "chrome_process (count_successful s) = chrome_process s" "files (count_successful s) = files s"
  "stats (count_successful s) = (stats s)\<lparr>successful := successful (stats s) + 1\<rparr>"
  by (simp_all add: count_successful_def)

lemma count_skipped_fields [simp]:
  "trace (count_skipped s) = trace s" "clock (count_skipped s) = clock s"
  "should_stop (count_skipped s) = should_stop s"
  "chrome_process (count_skipped s) = chrome_process s" "files (count_skipped s) = files s"
  "stats (count_skipped s) = (stats s)\<lparr>skipped := skipped (stats s) + 1\<rparr>"
  by (simp_all add: count_skipped_def)

lemma count_failed_fields [simp]:
  "trace (count_failed u m s) = trace s" "clock (count_failed u m s) = clock s"
  "should_stop (count_failed u m s) = should_stop s"
  "chrome_process (count_failed u m s) = chrome_process s" "files (count_failed u m s) = files s"
  "stats (count_failed u m s) =
     (stats s)\<lparr>failed := failed (stats s) + 1, errors := errors (stats s) @ [(u, m)]\<rparr>"
  by (simp_all add: count_failed_def)

lemma passes_refl [simp]: "passes e s s"
  by (simp add: passes_def)

lemma passes_trans: "passes e s s1 \<Longrightarrow> passes e s1 s2 \<Longrightarrow> passes e s s2"
  by (auto simp: passes_def quiet_def)

lemma passes_tick [simp]: "passes e s (tick e s)"
  by (auto simp: passes_def quiet_def)

lemma passes_record_event [simp]:
  "checkpoints [ev] = [] \<Longrightarrow> passes e s (record_event ev s)"
  by (auto simp: passes_def quiet_def)

lemma passes_tick_after: "passes e s s1 \<Longrightarrow> passes e s (tick e s1)"
  using passes_trans passes_tick by blast

lemma check_url_exists_passes: "check_url_exists e url s = (r, s') \<Longrightarrow> passes e s s'"
  by (auto simp: check_url_exists_def Let_def passes_def quiet_def)

lemma check_url_exists_trace:
  "check_url_exists e url s = (r, s') \<Longrightarrow> trace s' = trace s @ [Check url r]"
  by (auto simp: check_url_exists_def Let_def)

lemma check_url_exists_result:
  "check_url_exists e url s = (r, s') \<Longrightarrow> r = is_duplicate (duplicate_reply e (clock s) url)"
  by (auto simp: check_url_exists_def Let_def)

lemma devtools_close_passes: "devtools_close e t s = (ok, s') \<Longrightarrow> passes e s s' \<and> trace s' = trace s"
  by (auto simp: devtools_close_def split: option.splits)

lemma devtools_steps_passes: "devtools_steps e url s = (ok, s') \<Longrightarrow> passes e s s' \<and> trace s' = trace s"
  unfolding devtools_steps_def Let_def
  by (auto split: option.splits list.splits dest!: devtools_close_passes
      intro: passes_trans[OF passes_tick] passes_trans[OF passes_tick passes_trans[OF passes_tick]])


lemma process_url_via_chrome_devtools_effect:
  "process_url_via_chrome_devtools e url s = (ok, s') \<Longrightarrow>
     passes e s s' \<and> trace s' = trace s @ [Devtools url ok]"
  unfolding process_url_via_chrome_devtools_def
  by (auto split: prod.splits dest!: devtools_steps_passes simp: passes_def)

lemma process_url_via_tab_opener_effect:
  "process_url_via_tab_opener e url s = (ok, s') \<Longrightarrow>
     passes e s s' \<and> trace s' = trace s @ [Tab_opener url ok]"
  unfolding process_url_via_tab_opener_def
  by (auto simp: passes_def quiet_def Let_def)

lemma passes_clock: "passes e s s' \<Longrightarrow> clock s \<le> clock s'"
  by (simp add: passes_def)

lemma fallback_outcome:
  assumes "fallback e url s = (fin, s')"
  shows "attempt_outcome e url 0 s fin s'"
proof (cases "tab_opener_present e (clock s)")
  case False
  with assms have "\<not> fin" "s' = tick e s"
    by (auto simp: fallback_def)
  then show ?thesis
    unfolding attempt_outcome_def by (intro exI[of _ "tick e s"]) simp
next
  case True
  obtain ok s1 where run: "process_url_via_tab_opener e url (tick e s) = (ok, s1)"
    by force
  from process_url_via_tab_opener_effect[OF run]
  have p1: "passes e s s1" and t1: "trace s1 = trace s @ [Tab_opener url ok]"
    using passes_trans[OF passes_tick] by auto
  show ?thesis
  proof (cases ok)
    case False
    with assms True run have "\<not> fin" "s' = s1"
      by (auto simp: fallback_def)
    with p1 t1 show ?thesis
      unfolding attempt_outcome_def by (intro exI[of _ s1]) simp
  next
    case ok: True
    obtain dup s2 where chk: "check_url_exists e url s1 = (dup, s2)"
      by force
    have p2: "passes e s s2"
      using passes_trans[OF p1 check_url_exists_passes[OF chk]] .
    have t2: "trace s2 = trace s @ [Tab_opener url True, Check url dup]"
      using check_url_exists_trace[OF chk] t1 ok by simp
    have d: "dup = is_duplicate (duplicate_reply e (clock s1) url)"
      using check_url_exists_result[OF chk] .
    from assms True run ok chk
    have r: "fin = dup" "s' = (if dup then count_successful s2 else s2)"
      by (auto simp: fallback_def split: if_splits)
    have "dup \<Longrightarrow> confirmed_by_check url (trace s2)"
      unfolding confirmed_by_check_def using t2 by auto
    moreover have "dup \<Longrightarrow> \<exists>t\<ge>clock s. is_duplicate (duplicate_reply e t url)"
      using d passes_clock[OF p1] by auto
    ultimately show ?thesis
      unfolding attempt_outcome_def using p2 t2 r by (intro exI[of _ s2]) auto
  qed
qed

lemma attempt_outcome_after:
  assumes "passes e s s1" "devtools_calls url (trace s1) = devtools_calls url (trace s) + k"
    and "attempt_outcome e url 0 s1 fin s'"
  shows "attempt_outcome e url k s fin s'"
proof -
  from assms(3) obtain s2 where s2: "passes e s1 s2"
      "s' = (if fin then count_successful s2 else s2)"
      "devtools_calls url (trace s2) = devtools_calls url (trace s1) + 0"
      "fin \<longrightarrow> confirmed_by_check url (trace s2) \<and>
           (\<exists>t\<ge>clock s1. is_duplicate (duplicate_reply e t url))"
    unfolding attempt_outcome_def by blast
  have "fin \<longrightarrow> (\<exists>t\<ge>clock s. is_duplicate (duplicate_reply e t url))"
    using s2(4) passes_clock[OF assms(1)] by (meson le_trans)
  then show ?thesis
    unfolding attempt_outcome_def
    using s2 assms(2) passes_trans[OF assms(1) s2(1)] by (intro exI[of _ s2]) auto
qed

lemma attempt_body_outcome:
  assumes "attempt_body e url s = (fin, s')"
  shows "attempt_outcome e url 1 s fin s'"
proof -
  obtain ok s1 where dev: "process_url_via_chrome_devtools e url s = (ok, s1)"
    by force
  from process_url_via_chrome_devtools_effect[OF dev]
  have p1: "passes e s s1" and t1: "trace s1 = trace s @ [Devtools url ok]"
    by auto
  have c1: "devtools_calls url (trace s1) = devtools_calls url (trace s) + 1"
    using t1 by simp
  show ?thesis
  proof (cases ok)
    case False
    with assms dev have "fallback e url s1 = (fin, s')"
      by (simp add: attempt_body_def)
    from attempt_outcome_after[OF p1 c1 fallback_outcome[OF this]] show ?thesis .
  next
    case ok: True
    obtain dup s2 where chk: "check_url_exists e url (tick e s1) = (dup, s2)"
      by force
    have p2: "passes e s s2"
      using passes_trans[OF passes_tick_after[OF p1] check_url_exists_passes[OF chk]] .
    have t2: "trace s2 = trace s @ [Devtools url True, Check url dup]"
      using check_url_exists_trace[OF chk] t1 ok by simp
    have c2: "devtools_calls url (trace s2) = devtools_calls url (trace s) + 1"
      using t2 by simp
    have d: "dup = is_duplicate (duplicate_reply e (Suc (clock s1)) url)"
      using check_url_exists_result[OF chk] by simp
    show ?thesis
    proof (cases dup)
      case False
      with assms dev ok chk have "fallback e url s2 = (fin, s')"
        by (simp add: attempt_body_def)
      from attempt_outcome_after[OF p2 c2 fallback_outcome[OF this]] show ?thesis .
    next
      case True
      with assms dev ok chk have r: "fin" "s' = count_successful s2"
        by (auto simp: attempt_body_def)
      have "confirmed_by_check url (trace s2)"
        unfolding confirmed_by_check_def using t2 True by auto
      moreover have "\<exists>t\<ge>clock s. is_duplicate (duplicate_reply e t url)"
        using d True passes_clock[OF p1] by (intro exI[of _ "Suc (clock s1)"]) auto
      ultimately show ?thesis
        unfolding attempt_outcome_def using p2 c2 r by (intro exI[of _ s2]) auto
    qed
  qed
qed


lemma passes_prefix: "passes e s s' \<Longrightarrow> prefix (trace s) (trace s')"
  by (simp add: passes_def)

lemma passes_quiet: "passes e s s' \<Longrightarrow> quiet e s \<Longrightarrow> quiet e s' \<and> should_stop s' = should_stop s"
  by (auto simp: passes_def quiet_def)

lemma passes_undetected: "passes e s s' \<Longrightarrow> undetected e url s \<Longrightarrow> undetected e url s'"
  by (auto simp: passes_def undetected_def)

lemma attempt_outcome_passes:
  "attempt_outcome e url k s False s' \<Longrightarrow>
     passes e s s' \<and> devtools_calls url (trace s') = devtools_calls url (trace s) + k"
  by (auto simp: attempt_outcome_def)

lemma attempt_outcome_undetected:
  "attempt_outcome e url k s fin s' \<Longrightarrow> undetected e url s \<Longrightarrow> \<not> fin"
  by (auto simp: attempt_outcome_def undetected_def)

lemma attempt_body_first_event:
  assumes "attempt_body e url s = (fin, s')"
  shows "\<exists>ok rest. trace s' = trace s @ Devtools url ok # rest"
proof -
  obtain ok s1 where dev: "process_url_via_chrome_devtools e url s = (ok, s1)"
    by force
  have t1: "trace s1 = trace s @ [Devtools url ok]"
    using process_url_via_chrome_devtools_effect[OF dev] by simp
  have "prefix (trace s1) (trace s')"
  proof (cases ok)
    case False
    with assms dev have "fallback e url s1 = (fin, s')"
      by (simp add: attempt_body_def)
    from fallback_outcome[OF this] show ?thesis
      by (auto simp: attempt_outcome_def passes_def)
  next
    case ok: True
    obtain dup s2 where chk: "check_url_exists e url (tick e s1) = (dup, s2)"
      by force
    have p2: "prefix (trace s1) (trace s2)"
      using check_url_exists_trace[OF chk] by simp
    show ?thesis
    proof (cases dup)
      case False
      with assms dev ok chk have "fallback e url s2 = (fin, s')"
        by (simp add: attempt_body_def)
      from fallback_outcome[OF this] have "prefix (trace s2) (trace s')"
        by (auto simp: attempt_outcome_def passes_def)
      with p2 show ?thesis by (rule prefix_order.trans)
    next
      case True
      with assms dev ok chk have "s' = count_successful s2"
        by (auto simp: attempt_body_def)
      with p2 show ?thesis by simp
    qed
  qed
  then obtain more where "trace s' = trace s1 @ more"
    by (auto simp: prefix_def)
  with t1 show ?thesis by simp
qed

text \<open>The retry loop.\<close>

lemma attempts_stopped:
  "should_stop s \<Longrightarrow> attempts e cfg url (a # as) s = (Some (Failure url ''Stopped by user''), s)"
  by simp

lemma attempts_exhausted:
  "quiet e s \<Longrightarrow> \<not> should_stop s \<Longrightarrow> undetected e url s \<Longrightarrow>
     \<exists>s'. attempts e cfg url as s = (None, s') \<and> passes e s s' \<and>
       devtools_calls url (trace s') = devtools_calls url (trace s) + length as"
proof (induction as arbitrary: s)
  case Nil
  then show ?case by simp
next
  case (Cons a as)
  obtain fin s1 where body: "attempt_body e url s = (fin, s1)"
    by force
  note out = attempt_body_outcome[OF body]
  from attempt_outcome_undetected[OF out Cons.prems(3)] have nd: "\<not> fin" .
  with out have p1: "passes e s s1"
    and c1: "devtools_calls url (trace s1) = devtools_calls url (trace s) + 1"
    using attempt_outcome_passes by auto
  define s2 where "s2 = (if a < max_retries cfg then tick e s1 else s1)"
  have p2: "passes e s s2"
    unfolding s2_def using p1 passes_tick_after[OF p1] by simp
  have c2: "devtools_calls url (trace s2) = devtools_calls url (trace s) + 1"
    unfolding s2_def using c1 by simp
  from passes_quiet[OF p2 Cons.prems(1)] Cons.prems(2)
  have q2: "quiet e s2" "\<not> should_stop s2" by auto
  from Cons.IH[OF q2 passes_undetected[OF p2 Cons.prems(3)]]
  obtain s' where rest: "attempts e cfg url as s2 = (None, s')" "passes e s2 s'"
    "devtools_calls url (trace s') = devtools_calls url (trace s2) + length as"
    by blast
  have "attempts e cfg url (a # as) s = (None, s')"
    using Cons.prems(2) body nd rest(1) by (simp add: s2_def)
  with passes_trans[OF p2 rest(2)] rest(3) c2 show ?case by simp
qed

lemma attempts_result:
  assumes "attempts e cfg url as s = (r, s')"
  shows "(r = Some (Success_extracted url) \<and>
            (\<exists>s2. passes e s s2 \<and> s' = count_successful s2 \<and>
               confirmed_by_check url (trace s2) \<and>
               (\<exists>t\<ge>clock s. is_duplicate (duplicate_reply e t url)))) \<or>
         (r = Some (Failure url ''Stopped by user'') \<and> passes e s s' \<and> should_stop s') \<or>
         (r = None \<and> passes e s s')"
  using assms
proof (induction as arbitrary: s)
  case Nil
  then show ?case by simp
next
  case (Cons a as)
  show ?case
  proof (cases "should_stop s")
    case True
    with Cons.prems show ?thesis by auto
  next
    case False
    obtain fin s1 where body: "attempt_body e url s = (fin, s1)"
      by force
    note out = attempt_body_outcome[OF body]
    show ?thesis
    proof (cases fin)
      case True
      with Cons.prems False body have "r = Some (Success_extracted url)" "s' = s1"
        by auto
      with out True show ?thesis
        by (auto simp: attempt_outcome_def)
    next
      case nd: False
      with out have p1: "passes e s s1"
        using attempt_outcome_passes by auto
      define s2 where "s2 = (if a < max_retries cfg then tick e s1 else s1)"
      have p2: "passes e s s2"
        unfolding s2_def using p1 passes_tick_after[OF p1] by simp
      have "attempts e cfg url as s2 = (r, s')"
        using Cons.prems False body nd by (simp add: s2_def)
      from Cons.IH[OF this] consider
        (ok) s3 t where "r = Some (Success_extracted url)" "passes e s2 s3"
          "s' = count_successful s3" "confirmed_by_check url (trace s3)"
          "clock s2 \<le> t" "is_duplicate (duplicate_reply e t url)"
        | (stopped) "r = Some (Failure url ''Stopped by user'')" "passes e s2 s'" "should_stop s'"
        | (out) "r = None" "passes e s2 s'"
        by blast
      then show ?thesis
      proof cases
        case ok
        have "passes e s s3" using passes_trans[OF p2 ok(2)] .
        moreover have "clock s \<le> t" using passes_clock[OF p2] ok(5) by simp
        ultimately show ?thesis using ok by blast
      next
        case stopped
        then show ?thesis using passes_trans[OF p2] by blast
      next
        case out
        then show ?thesis using passes_trans[OF p2] by blast
      qed
    qed
  qed
qed

lemma attempts_first_event:
  assumes "attempts e cfg url (a # as) s = (r, s')" "\<not> should_stop s"
  shows "\<exists>ok rest. trace s' = trace s @ Devtools url ok # rest"
proof -
  obtain fin s1 where body: "attempt_body e url s = (fin, s1)"
    by force
  from attempt_body_first_event[OF body]
  obtain ok rest where t1: "trace s1 = trace s @ Devtools url ok # rest"
    by blast
  show ?thesis
  proof (cases fin)
    case True
    with assms body have "s' = s1" by auto
    with t1 show ?thesis by blast
  next
    case False
    define s2 where "s2 = (if a < max_retries cfg then tick e s1 else s1)"
    have t2: "trace s2 = trace s1" by (simp add: s2_def)
    have "attempts e cfg url as s2 = (r, s')"
      using assms body False by (simp add: s2_def)
    from attempts_result[OF this] have "prefix (trace s2) (trace s')"
      by (auto simp: passes_def)
    then obtain more where "trace s' = trace s2 @ more"
      by (auto simp: prefix_def)
    with t1 t2 show ?thesis by simp
  qed
qed

section \<open>The item processor: claims\<close>

lemma str_int_0: "str_int 0 = ''0''"
  by (simp add: str_int_def str_nat.simps digit_char_def)

lemma check_url_exists_eq:
  "check_url_exists e url s =
     (is_duplicate (duplicate_reply e (clock s) url),
      tick e (record_event (Check url (is_duplicate (duplicate_reply e (clock s) url))) s))"
  by (simp add: check_url_exists_def Let_def)

lemma process_single_url_duplicate:
  "is_duplicate (duplicate_reply e (clock s) url) \<Longrightarrow>
     process_single_url e cfg url index tot s =
       (Success_skipped url, count_skipped (tick e (record_event (Check url True) s)))"
  by (simp add: process_single_url_def check_url_exists_eq)

lemma process_single_url_attempts:
  assumes "\<not> is_duplicate (duplicate_reply e (clock s) url)"
    and "attempts e cfg url [1..max_retries cfg] (tick e (record_event (Check url False) s)) = (a, s2)"
  shows "process_single_url e cfg url index tot s =
     (case a of
        Some r \<Rightarrow> (r, s2)
      | None \<Rightarrow>
          (Failure url (''Failed after '' @ str_int (max_retries cfg) @ '' attempts''),
           count_failed url (''Failed after '' @ str_int (max_retries cfg) @ '' attempts'') s2))"
  using assms by (simp add: process_single_url_def check_url_exists_eq Let_def split: option.splits)

text \<open>
  Claim C7. When the first duplicate check of an identifier is positive,
  \<^verbatim>\<open>process_single_url\<close> returns the skipped result and adds one to \<open>skipped\<close> and to
  nothing else; the only call it makes is that check, so no extraction is triggered and
  no attempt is spent.
\<close>

theorem duplicate_is_skipped_without_extraction:
  assumes "is_duplicate (duplicate_reply e (clock s) url)"
    and "process_single_url e cfg url index tot s = (r, s')"
  shows "r = Success_skipped url \<and> trace s' = trace s @ [Check url True] \<and>
         stats s' = (stats s)\<lparr>skipped := skipped (stats s) + 1\<rparr>"
  using assms(2) unfolding process_single_url_duplicate[OF assms(1)] by auto

text \<open>
  Claim C10. With \<open>max_retries = 0\<close>, an identifier whose duplicate check is not positive
  is recorded as failed with the message \<^verbatim>\<open>Failed after 0 attempts\<close>; the trace holds the
  check and no trigger call.
\<close>

theorem no_retries_fail_without_trigger:
  assumes "max_retries cfg = 0"
    and "\<not> is_duplicate (duplicate_reply e (clock s) url)"
    and "process_single_url e cfg url index tot s = (r, s')"
  shows "r = Failure url ''Failed after 0 attempts'' \<and>
         trace s' = trace s @ [Check url False] \<and>
         stats s' = (stats s)\<lparr>failed := failed (stats s) + 1,
           errors := errors (stats s) @ [(url, ''Failed after 0 attempts'')]\<rparr>"
proof -
  have "attempts e cfg url [1..max_retries cfg] (tick e (record_event (Check url False) s)) =
          (None, tick e (record_event (Check url False) s))"
    using assms(1) by simp
  from process_single_url_attempts[OF assms(2) this, of index tot] assms(1,3)
  show ?thesis by (auto simp: str_int_0)
qed

text \<open>
  Claim C3. An identifier that is not a duplicate and whose verification never turns
  positive, processed with no shutdown signal and \<open>max_retries \<ge> 0\<close>: the DevTools trigger
  is called exactly \<open>max_retries\<close> times, the result is the failure with the message
  \<^verbatim>\<open>Failed after N attempts\<close>, \<open>failed\<close> grows by one and the failure list by
  exactly that one record.
\<close>

theorem retry_bound:
  assumes "0 \<le> max_retries cfg"
    and "undetected e url s" and "quiet e s" and "\<not> should_stop s"
    and "process_single_url e cfg url index tot s = (r, s')"
  shows "r = Failure url (''Failed after '' @ str_int (max_retries cfg) @ '' attempts'') \<and>
         devtools_calls url (trace s') = devtools_calls url (trace s) + nat (max_retries cfg) \<and>
         stats s' = (stats s)\<lparr>failed := failed (stats s) + 1,
           errors := errors (stats s) @
             [(url, ''Failed after '' @ str_int (max_retries cfg) @ '' attempts'')]\<rparr>"
proof -
  define s1 where "s1 = tick e (record_event (Check url False) s)"
  have nd: "\<not> is_duplicate (duplicate_reply e (clock s) url)"
    using assms(2) by (simp add: undetected_def)
  have p1: "passes e s s1"
    unfolding s1_def by (rule passes_tick_after) simp
  have q1: "quiet e s1" "\<not> should_stop s1"
    using passes_quiet[OF p1 assms(3)] assms(4) by auto
  from attempts_exhausted[OF q1 passes_undetected[OF p1 assms(2)], of cfg "[1..max_retries cfg]"]
  obtain s2 where a: "attempts e cfg url [1..max_retries cfg] s1 = (None, s2)"
    and p2: "passes e s1 s2"
    and c2: "devtools_calls url (trace s2) =
             devtools_calls url (trace s1) + length [1..max_retries cfg]"
    by blast
  have len: "length [1..max_retries cfg] = nat (max_retries cfg)"
    by simp
  have st: "stats s2 = stats s"
    using passes_trans[OF p1 p2] by (simp add: passes_def)
  from process_single_url_attempts[OF nd a[unfolded s1_def], of index tot] assms(5)
  have "r = Failure url (''Failed after '' @ str_int (max_retries cfg) @ '' attempts'')"
    and "s' = count_failed url (''Failed after '' @ str_int (max_retries cfg) @ '' attempts'') s2"
    by auto
  then show ?thesis
    using c2 len st by (simp add: s1_def)
qed



text \<open>
  Claim C8. When the duplicate-check call fails (the request raises, the status is an
  error, or the body cannot be read), \<^verbatim>\<open>check_url_exists\<close> returns \<^verbatim>\<open>False\<close>; the item
  is not skipped, and with an attempt to spend and no shutdown the next call is the
  extraction trigger.
\<close>

theorem check_error_is_not_duplicate:
  assumes "duplicate_reply e (clock s) url \<in> {Request_failed, Bad_status, Bad_body}"
    and "process_single_url e cfg url index tot s = (r, s')"
  shows "fst (check_url_exists e url s) = False \<and> r \<noteq> Success_skipped url \<and>
         (1 \<le> max_retries cfg \<and> \<not> should_stop s \<and> \<not> signal e (clock s) \<longrightarrow>
            (\<exists>ok rest. trace s' = trace s @ Check url False # Devtools url ok # rest))"
proof -
  have nd: "\<not> is_duplicate (duplicate_reply e (clock s) url)"
    using assms(1) by (auto simp: is_duplicate_def)
  define s1 where "s1 = tick e (record_event (Check url False) s)"
  obtain a s2 where a: "attempts e cfg url [1..max_retries cfg] s1 = (a, s2)"
    by force
  note run = process_single_url_attempts[OF nd a[unfolded s1_def], of index tot]
  from attempts_result[OF a] have kinds: "a \<noteq> Some (Success_skipped url)"
    by auto
  have skip: "r \<noteq> Success_skipped url"
    using run assms(2) kinds by (auto split: option.splits)
  have tr: "\<exists>ok rest. trace s' = trace s @ Check url False # Devtools url ok # rest"
    if h: "1 \<le> max_retries cfg" "\<not> should_stop s" "\<not> signal e (clock s)"
  proof -
    have ns: "\<not> should_stop s1" using h by (simp add: s1_def)
    have l: "[1..max_retries cfg] = 1 # [2..max_retries cfg]"
      using h(1) by (simp add: upto_rec1)
    from attempts_first_event[OF a[unfolded l] ns]
    obtain ok rest where t2: "trace s2 = trace s1 @ Devtools url ok # rest"
      by blast
    have "trace s' = trace s2"
      using run assms(2) by (auto split: option.splits)
    with t2 show ?thesis by (simp add: s1_def)
  qed
  show ?thesis
    using nd skip tr by (simp add: check_url_exists_eq)
qed


text \<open>A backend that has the URL: the run is the check alone.\<close>

theorem duplicate_is_skipped_witness:
  "is_duplicate (duplicate_reply known_env (clock BatchProcessor) ''http://a'') \<and>
   fst (process_single_url known_env default_config ''http://a'' 1 1 BatchProcessor) =
     Success_skipped ''http://a'' \<and>
   trace (snd (process_single_url known_env default_config ''http://a'' 1 1 BatchProcessor)) =
     [Check ''http://a'' True] \<and>
   skipped (stats (snd (process_single_url known_env default_config ''http://a'' 1 1
     BatchProcessor))) = 1"
proof -
  have h: "is_duplicate (duplicate_reply known_env (clock BatchProcessor) ''http://a'')"
    by (simp add: known_env_def plain_env_def is_duplicate_def)
  obtain r s' where run:
    "process_single_url known_env default_config ''http://a'' 1 1 BatchProcessor = (r, s')"
    by force
  from duplicate_is_skipped_without_extraction[OF h run] h run show ?thesis
    by (simp add: BatchProcessor_def ProcessingStats_def)
qed

text \<open>The default configuration with no retries, on a backend that knows no URL.\<close>

theorem no_retries_witness:
  "max_retries no_retry_config = 0 \<and>
   \<not> is_duplicate (duplicate_reply plain_env (clock BatchProcessor) ''http://a'') \<and>
   process_single_url plain_env no_retry_config ''http://a'' 1 1 BatchProcessor =
     (Failure ''http://a'' ''Failed after 0 attempts'',
      snd (process_single_url plain_env no_retry_config ''http://a'' 1 1 BatchProcessor)) \<and>
   trace (snd (process_single_url plain_env no_retry_config ''http://a'' 1 1 BatchProcessor)) =
     [Check ''http://a'' False]"
proof -
  have h1: "max_retries no_retry_config = 0"
    by (simp add: no_retry_config_def)
  have h2: "\<not> is_duplicate (duplicate_reply plain_env (clock BatchProcessor) ''http://a'')"
    by (simp add: plain_env_def is_duplicate_def)
  obtain r s' where run:
    "process_single_url plain_env no_retry_config ''http://a'' 1 1 BatchProcessor = (r, s')"
    by force
  from no_retries_fail_without_trigger[OF h1 h2 run] h1 h2 run show ?thesis
    by (simp add: BatchProcessor_def)
qed

text \<open>Three attempts under the default configuration.\<close>

theorem retry_bound_witness:
  "0 \<le> max_retries default_config \<and> undetected plain_env ''http://a'' BatchProcessor \<and>
   quiet plain_env BatchProcessor \<and> \<not> should_stop BatchProcessor \<and>
   fst (process_single_url plain_env default_config ''http://a'' 1 1 BatchProcessor) =
     Failure ''http://a'' ''Failed after 3 attempts'' \<and>
   devtools_calls ''http://a''
     (trace (snd (process_single_url plain_env default_config ''http://a'' 1 1 BatchProcessor))) = 3 \<and>
   errors (stats (snd (process_single_url plain_env default_config ''http://a'' 1 1 BatchProcessor))) =
     [(''http://a'', ''Failed after 3 attempts'')]"
proof -
  have h1: "0 \<le> max_retries default_config"
    by (simp add: default_config_def)
  have h2: "undetected plain_env ''http://a'' BatchProcessor"
    by (simp add: undetected_def plain_env_def is_duplicate_def)
  have h3: "quiet plain_env BatchProcessor"
    by (simp add: quiet_def plain_env_def)
  have h4: "\<not> should_stop BatchProcessor"
    by (simp add: BatchProcessor_def)
  have m: "max_retries default_config = 3" "str_int 3 = ''3''"
    by (simp_all add: default_config_def str_int_def str_nat.simps digit_char_def)
  obtain r s' where run:
    "process_single_url plain_env default_config ''http://a'' 1 1 BatchProcessor = (r, s')"
    by force
  from retry_bound[OF h1 h2 h3 h4 run] h1 h2 h3 h4 run m show ?thesis
    by (simp add: BatchProcessor_def ProcessingStats_def)
qed


text \<open>A backend that cannot be reached.\<close>

theorem check_error_witness:
  "duplicate_reply unreachable_env (clock BatchProcessor) ''http://a''
     \<in> {Request_failed, Bad_status, Bad_body} \<and>
   fst (check_url_exists unreachable_env ''http://a'' BatchProcessor) = False \<and>
   1 \<le> max_retries default_config \<and> \<not> should_stop BatchProcessor \<and>
   \<not> signal unreachable_env (clock BatchProcessor) \<and>
   (\<exists>ok rest.
      trace (snd (process_single_url unreachable_env default_config ''http://a'' 1 1
        BatchProcessor)) = Check ''http://a'' False # Devtools ''http://a'' ok # rest)"
proof -
  have h: "duplicate_reply unreachable_env (clock BatchProcessor) ''http://a''
     \<in> {Request_failed, Bad_status, Bad_body}"
    by (simp add: unreachable_env_def plain_env_def)
  have g: "1 \<le> max_retries default_config" "\<not> should_stop BatchProcessor"
    "\<not> signal unreachable_env (clock BatchProcessor)"
    by (simp_all add: default_config_def BatchProcessor_def unreachable_env_def plain_env_def)
  obtain r s' where run:
    "process_single_url unreachable_env default_config ''http://a'' 1 1 BatchProcessor = (r, s')"
    by force
  from check_error_is_not_duplicate[OF h run] h g run show ?thesis
    by (simp add: BatchProcessor_def)
qed

section \<open>Shutdown\<close>







section \<open>Process supervisor: claims\<close>

lemma wait_for_process_termination_handle:
  "chrome_process (snd (wait_for_process_termination e n s)) = chrome_process s"
  by (induction n arbitrary: s) simp_all

lemma wait_for_process_termination_exited:
  "exited e (clock s) \<Longrightarrow> 0 < n \<Longrightarrow> wait_for_process_termination e n s = (True, tick e s)"
  by (cases n) simp_all

lemma stop_chrome_none: "chrome_process s = None \<Longrightarrow> stop_chrome e s = s"
  by (simp add: stop_chrome_def)

lemma stop_chrome_handle: "chrome_process (stop_chrome e s) = None"
  by (cases "chrome_process s") (simp_all add: stop_chrome_def Let_def split: prod.splits)

text \<open>
  Claim C9, as amended. \<^verbatim>\<open>stop_chrome\<close> always leaves no process handle, a second call
  changes nothing, and with no handle held (never launched, or already stopped) the
  call changes nothing at all; after \<^verbatim>\<open>start_chrome\<close>, whatever it returned, the handle
  is gone once \<^verbatim>\<open>stop_chrome\<close> has run. The model's \<^verbatim>\<open>stop_chrome\<close> has no error result:
  the one exception of the source, the timeout, is caught there.
\<close>

theorem stop_chrome_idempotent:
  "chrome_process (stop_chrome e s) = None \<and>
   stop_chrome e (stop_chrome e s) = stop_chrome e s \<and>
   (chrome_process s = None \<longrightarrow> stop_chrome e s = s) \<and>
   chrome_process (stop_chrome e (snd (start_chrome e s))) = None"
  using stop_chrome_handle stop_chrome_none by simp

text \<open>A processor that never launched a browser.\<close>

theorem stop_chrome_witness:
  "chrome_process BatchProcessor = None \<and>
   stop_chrome plain_env BatchProcessor = BatchProcessor \<and>
   stop_chrome plain_env (stop_chrome plain_env BatchProcessor) = BatchProcessor"
proof -
  have h: "chrome_process BatchProcessor = None"
    by (simp add: BatchProcessor_def)
  from stop_chrome_idempotent[of plain_env BatchProcessor] h show ?thesis by simp
qed

text \<open>
  Claim C9 as stated fails where the browser was launched and its debugging port did
  not answer: \<^verbatim>\<open>start_chrome\<close> reports failure with the handle stored, and
  \<^verbatim>\<open>stop_chrome\<close> then terminates that process, which is not a no-op.
\<close>

theorem stop_after_failed_probe_terminates:
  "fst (start_chrome no_port_env BatchProcessor) = False \<and>
   chrome_process (snd (start_chrome no_port_env BatchProcessor)) = Some 4242 \<and>
   trace (snd (start_chrome no_port_env BatchProcessor)) = [Launch 4242] \<and>
   trace (stop_chrome no_port_env (snd (start_chrome no_port_env BatchProcessor))) =
     [Launch 4242, Terminate 4242] \<and>
   stop_chrome no_port_env (snd (start_chrome no_port_env BatchProcessor)) \<noteq>
     snd (start_chrome no_port_env BatchProcessor)"
proof -
  have a: "fst (start_chrome no_port_env BatchProcessor) = False"
    "chrome_process (snd (start_chrome no_port_env BatchProcessor)) = Some 4242"
    "trace (snd (start_chrome no_port_env BatchProcessor)) = [Launch 4242]"
    by (simp_all add: start_chrome_def no_port_env_def plain_env_def BatchProcessor_def
        tick_def record_event_def Let_def)
  have w: "wait_for_process_termination no_port_env (poll_budget no_port_env) s1 =
      (True, tick no_port_env s1)" for s1
    using wait_for_process_termination_exited[of no_port_env s1 "poll_budget no_port_env"]
    by (simp add: no_port_env_def plain_env_def)
  have b: "trace (stop_chrome no_port_env (snd (start_chrome no_port_env BatchProcessor))) =
     [Launch 4242, Terminate 4242]"
    by (simp add: stop_chrome_def a w Let_def)
  from a b show ?thesis by auto
qed

section \<open>Progress ledger: claims\<close>









section \<open>Identifier source: claims\<close>

lemma strip_Nil [simp]: "strip [] = []"
  by (simp add: strip_def)







section \<open>Batch scheduler: counting\<close>







section \<open>Batch scheduler: claims\<close>


lemma count_processed_fields [simp]:
  "trace (count_processed n s) = trace s" "clock (count_processed n s) = clock s"
  "should_stop (count_processed n s) = should_stop s"
  "stats (count_processed n s) = (stats s)\<lparr>processed := processed (stats s) + int n\<rparr>"
  by (simp_all add: count_processed_def)




lemma known_run_raises:
  "fst (process_all_urls known_env default_config [''http://a'', ''http://b''] BatchProcessor) =
     Inl AttributeError"
  "stats (snd (process_all_urls known_env default_config [''http://a'', ''http://b'']
     BatchProcessor)) =
     \<lparr>total = 2, processed = 0, successful = 0, failed = 0, skipped = 2,
      start_time = Some 0, errors = []\<rparr>"
  by (simp_all add: process_all_urls_def batch_loop.simps process_batch_def
      process_single_url_def check_url_exists_def as_completed_asyncio_def
      known_env_def plain_env_def default_config_def BatchProcessor_def
      ProcessingStats_def is_duplicate_def tick_def record_event_def count_skipped_def
      count_processed_def Let_def)




end
